theory Spec2Isabelle
  imports Complex_Main
begin

section \<open>Python strings\<close>

text \<open>
  A Python \<open>str\<close> is modelled as a \<open>string\<close> whose characters are the code points
  below 256. \<open>isspace\<close> is the whitespace class shared by the \<open>\s\<close> of the \<open>re\<close>
  module and by \<open>str.strip()\<close>: tab, line feed, vertical tab, form feed, carriage
  return, the separators 28 to 31, the space, and in the Latin-1 range the next-line
  control 133 and the no-break space 160.
\<close>

definition isspace :: "char \<Rightarrow> bool" where
  "isspace c = (of_char c \<in> {9, 10, 11, 12, 13, 28, 29, 30, 31, 32, 133, 160 :: nat})"

text \<open>\<open>str.strip()\<close>: leading and trailing whitespace removed.\<close>

definition strip :: "string \<Rightarrow> string" where
  "strip s = rev (dropWhile isspace (rev (dropWhile isspace s)))"

text \<open>
  \<open>xs[a:b]\<close>: a negative bound counts from the end, and both bounds are clamped to the
  list; an empty range gives the empty list.
\<close>

definition py_slice :: "'a list \<Rightarrow> int \<Rightarrow> int \<Rightarrow> 'a list" where
  "py_slice xs a b =
     (let n = int (length xs);
          lo = (if a < 0 then max (a + n) 0 else min a n);
          hi = (if b < 0 then max (b + n) 0 else min b n)
      in take (nat (hi - lo)) (drop (nat lo) xs))"

text \<open>\<open>sep.join(parts)\<close>.\<close>

fun join_str :: "string \<Rightarrow> string list \<Rightarrow> string" where
  "join_str sep [] = []"
| "join_str sep [x] = x"
| "join_str sep (x # y # ys) = x @ sep @ join_str sep (y # ys)"

text \<open>\<open>str(n)\<close> of an integer: its decimal digits, with a sign when negative.\<close>

definition digit_char :: "nat \<Rightarrow> char" where
  "digit_char d = char_of (48 + d)"

fun str_nat :: "nat \<Rightarrow> string" where
  "str_nat n =
     (if n < 10 then [digit_char n] else str_nat (n div 10) @ [digit_char (n mod 10)])"

declare str_nat.simps [simp del]

definition str_int :: "int \<Rightarrow> string" where
  "str_int i = (if i < 0 then CHR ''-'' # str_nat (nat (- i)) else str_nat (nat i))"

text \<open>
  \<open>str.lower()\<close> on code points below 256: the ASCII capitals and the Latin-1
  capitals (192 to 222 without the multiplication sign 215) move up by 32.
\<close>

definition lower_char :: "char \<Rightarrow> char" where
  "lower_char c =
     (let n = of_char c :: nat
      in if (65 \<le> n \<and> n \<le> 90) \<or> (192 \<le> n \<and> n \<le> 222 \<and> n \<noteq> 215)
         then char_of (n + 32) else c)"

definition lower :: "string \<Rightarrow> string" where
  "lower s = map lower_char s"

definition endswith :: "string \<Rightarrow> string \<Rightarrow> bool" where
  "endswith s suffix =
     (length suffix \<le> length s \<and> drop (length s - length suffix) s = suffix)"

text \<open>
  \<open>os.path.join(root, name)\<close> on a POSIX system: an absolute \<open>name\<close> replaces the
  root, and a slash is put between the two unless the root is empty or ends with one.
\<close>

definition path_join :: "string \<Rightarrow> string \<Rightarrow> string" where
  "path_join rootdir name =
     (if name \<noteq> [] \<and> hd name = CHR ''/'' then name
      else if rootdir = [] \<or> last rootdir = CHR ''/'' then rootdir @ name
      else rootdir @ ''/'' @ name)"

section \<open>Exceptions as values\<close>

text \<open>
  A call either returns (\<open>Inr\<close>) or raises (\<open>Inl\<close>). \<open>and_then\<close> runs the next
  statement on the value returned and passes an exception on unchanged;
  \<open>map_raising\<close> is a list comprehension whose element expression may raise: the
  first exception, in list order, ends it.
\<close>

definition and_then :: "'e + 'a \<Rightarrow> ('a \<Rightarrow> 'e + 'b) \<Rightarrow> 'e + 'b" where
  "and_then r f = (case r of Inl e \<Rightarrow> Inl e | Inr v \<Rightarrow> f v)"

fun map_raising :: "('a \<Rightarrow> 'e + 'b) \<Rightarrow> 'a list \<Rightarrow> 'e + 'b list" where
  "map_raising f [] = Inr []"
| "map_raising f (x # xs) =
     (case f x of
        Inl e \<Rightarrow> Inl e
      | Inr y \<Rightarrow> (case map_raising f xs of Inl e \<Rightarrow> Inl e | Inr ys \<Rightarrow> Inr (y # ys)))"

text \<open>
  The exceptions of the Python runtime that the modelled code can raise by itself, and
  \<open>Raised e\<close> for an exception \<open>e\<close> of a collaborator (the embedding client, the
  vector store, the HTTP client), which the code never catches.
\<close>

datatype 'e exn = IndexError | KeyError | TypeError | AttributeError | Raised 'e

section \<open>The text segmenter (ingest/pdf\_ingest.py)\<close>

text \<open>
  \<open>re.findall(r"\S+\s*", text)\<close>: the scan skips whitespace until a character that
  is not whitespace; there the greedy match takes the whole run of such characters
  and the whole run of whitespace after it, and the scan resumes behind the match.
\<close>

function findall_tokens :: "string \<Rightarrow> string list" where
  "findall_tokens [] = []"
| "findall_tokens (c # cs) =
     (if isspace c then findall_tokens cs
      else (let rest = dropWhile (\<lambda>x. \<not> isspace x) cs
            in (c # takeWhile (\<lambda>x. \<not> isspace x) cs @ takeWhile isspace rest)
               # findall_tokens (dropWhile isspace rest)))"
  by pat_completeness auto
termination
proof (relation "measure length")
  fix c :: char and cs x
  assume "x = dropWhile (\<lambda>x. \<not> isspace x) cs"
  then have "length (dropWhile isspace x) \<le> length cs"
    by (metis length_dropWhile_le order_trans)
  then show "(dropWhile isspace x, c # cs) \<in> measure length" by simp
qed auto

text \<open>
  The \<open>while\<close> loop of \<open>_chunk_text\<close>. The counter \<open>i\<close> and both parameters are
  Python integers, so the step \<open>chunk_size - overlap\<close> may be zero or negative. A
  run in which the loop condition never becomes false is the value \<open>None\<close>: such
  a run appends one chunk per round and yields no chunk sequence (on a machine it
  ends when memory is exhausted). The source has no \<open>raise\<close> and checks neither
  parameter.
\<close>

partial_function (option) chunk_loop ::
  "string list \<Rightarrow> int \<Rightarrow> int \<Rightarrow> int \<Rightarrow> string list \<Rightarrow> string list option" where
  "chunk_loop tokens chunk_size overlap i chunks =
     (if i < int (length tokens)
      then chunk_loop tokens chunk_size overlap (i + (chunk_size - overlap))
             (chunks @ [strip (concat (py_slice tokens i (i + chunk_size)))])
      else Some chunks)"

declare chunk_loop.simps [code]

definition chunk_text :: "string \<Rightarrow> int \<Rightarrow> int \<Rightarrow> string list option" where
  "chunk_text text chunk_size overlap =
     chunk_loop (findall_tokens text) chunk_size overlap 0 []"

text \<open>
  The whitespace-delimited tokens of a text: each regex token without its trailing
  whitespace.
\<close>

definition word :: "string \<Rightarrow> string" where
  "word t = takeWhile (\<lambda>c. \<not> isspace c) t"



section \<open>The ingestion orchestrator (ingest/pdf\_ingest.py)\<close>

text \<open>The metadata dictionary \<open>{"source": full, "chunk_index": i}\<close> of one chunk.\<close>

record chunk_meta =
  source :: string
  chunk_index :: nat

text \<open>One \<open>store.add(ids, chunks, metas)\<close> call: the three parallel lists.\<close>

type_synonym batch = "string list \<times> string list \<times> chunk_meta list"

text \<open>The calls \<open>ingest_folder\<close> makes to its collaborators, in order.\<close>

datatype call =
  ProgressCb string
| OpenPdf string
| Encode "string list"
| StoreAdd "string list" "string list" "chunk_meta list"

text \<open>
  The collaborators. \<open>page_texts\<close> is PyMuPDF: the text of each page of the file, or
  the exception it raises. \<open>encode\<close> is the embedding client. \<open>store_add\<close> is the
  store's decision on a batch, given the batches committed so far: \<open>None\<close> when the
  batch is committed, \<open>Some e\<close> when the call raises \<open>e\<close>. \<open>uuid4_hex n\<close> is the
  text of the \<open>n\<close>-th random identifier drawn; nothing is assumed about it.
  \<open>progress_cb\<close> tells whether a progress callback was passed.
\<close>

record ('e, 'v) collaborators =
  page_texts :: "string \<Rightarrow> 'e + string list"
  encode :: "string list \<Rightarrow> 'e + 'v list"
  store_add :: "batch list \<Rightarrow> batch \<Rightarrow> 'e option"
  uuid4_hex :: "nat \<Rightarrow> string"
  progress_cb :: bool

text \<open>
  What a run changes: the batches the store has committed, the trace of calls, and
  the number of identifiers drawn from the random generator.
\<close>

record ingest_state =
  committed :: "batch list"
  calls :: "call list"
  uuids_drawn :: nat

definition log_call :: "call \<Rightarrow> ingest_state \<Rightarrow> ingest_state" where
  "log_call c st = st\<lparr>calls := calls st @ [c]\<rparr>"

definition extract_text_from_pdf :: "('e, 'v) collaborators \<Rightarrow> string \<Rightarrow> 'e + string" where
  "extract_text_from_pdf C path =
     (case page_texts C path of
        Inl e \<Rightarrow> Inl e
      | Inr texts \<Rightarrow> Inr (join_str [CHR 0x0A] texts))"

text \<open>
  \<open>[f"{uuid.uuid4().hex}-{i}" for i in range(n)]\<close>: one fresh identifier is drawn
  for every chunk, \<open>k\<close> having been drawn before.
\<close>

definition make_ids :: "(nat \<Rightarrow> string) \<Rightarrow> nat \<Rightarrow> nat \<Rightarrow> string list" where
  "make_ids uuid k n = map (\<lambda>i. uuid (k + i) @ ''-'' @ str_nat i) [0..<n]"

definition make_metas :: "string \<Rightarrow> nat \<Rightarrow> chunk_meta list" where
  "make_metas full n = map (\<lambda>i. \<lparr>source = full, chunk_index = i\<rparr>) [0..<n]"

text \<open>
  The body of the inner loop for one PDF file \<open>full\<close>: the result is the state reached
  and either the exception that leaves \<open>ingest_folder\<close> or the number of chunks to
  add to \<open>total_chunks\<close>. The whole result is \<open>None\<close> if the segmenter does not
  return.
\<close>

definition ingest_file ::
  "('e, 'v) collaborators \<Rightarrow> string \<Rightarrow> ingest_state \<Rightarrow> (ingest_state \<times> ('e + nat)) option" where
  "ingest_file C full st =
     (let st1 = (if progress_cb C then log_call (ProgressCb (''Parsing '' @ full)) st else st);
          st2 = log_call (OpenPdf full) st1
      in case extract_text_from_pdf C full of
           Inl e \<Rightarrow> Some (st2, Inl e)
         | Inr txt \<Rightarrow>
            (case chunk_text txt 800 120 of
               None \<Rightarrow> None
             | Some chunks \<Rightarrow>
                if chunks = [] then Some (st2, Inr 0)
                else
                  (let st3 = log_call (Encode chunks) st2
                   in case encode C chunks of
                        Inl e \<Rightarrow> Some (st3, Inl e)
                      | Inr vecs \<Rightarrow>
                         (let n = length chunks;
                              ids = make_ids (uuid4_hex C) (uuids_drawn st3) n;
                              metas = make_metas full n;
                              st4 = log_call (StoreAdd ids chunks metas)
                                      (st3\<lparr>uuids_drawn := uuids_drawn st3 + n\<rparr>)
                          in case store_add C (committed st4) (ids, chunks, metas) of
                               Some e \<Rightarrow> Some (st4, Inl e)
                             | None \<Rightarrow>
                                Some (st4\<lparr>committed := committed st4 @ [(ids, chunks, metas)]\<rparr>,
                                      Inr n)))))"

text \<open>The inner loop, over the file names of one directory.\<close>

fun ingest_names ::
  "('e, 'v) collaborators \<Rightarrow> string \<Rightarrow> string list \<Rightarrow> nat \<Rightarrow> ingest_state
     \<Rightarrow> (ingest_state \<times> ('e + nat)) option" where
  "ingest_names C rootdir [] total_chunks st = Some (st, Inr total_chunks)"
| "ingest_names C rootdir (name # names) total_chunks st =
     (if endswith (lower name) ''.pdf''
      then (case ingest_file C (path_join rootdir name) st of
              None \<Rightarrow> None
            | Some (st', Inl e) \<Rightarrow> Some (st', Inl e)
            | Some (st', Inr n) \<Rightarrow> ingest_names C rootdir names (total_chunks + n) st')
      else ingest_names C rootdir names total_chunks st)"

text \<open>
  The outer loop, over the \<open>(root, files)\<close> pairs that \<open>os.walk(path)\<close> yields (the
  directory names between them are not used).
\<close>

fun ingest_walk ::
  "('e, 'v) collaborators \<Rightarrow> (string \<times> string list) list \<Rightarrow> nat \<Rightarrow> ingest_state
     \<Rightarrow> (ingest_state \<times> ('e + nat)) option" where
  "ingest_walk C [] total_chunks st = Some (st, Inr total_chunks)"
| "ingest_walk C ((rootdir, files) # rest) total_chunks st =
     (case ingest_names C rootdir files total_chunks st of
        None \<Rightarrow> None
      | Some (st', Inl e) \<Rightarrow> Some (st', Inl e)
      | Some (st', Inr t) \<Rightarrow> ingest_walk C rest t st')"

definition ingest_folder ::
  "('e, 'v) collaborators \<Rightarrow> (string \<times> string list) list \<Rightarrow> ingest_state
     \<Rightarrow> (ingest_state \<times> ('e + nat)) option" where
  "ingest_folder C walk st = ingest_walk C walk 0 st"

text \<open>The PDF files of a walk, by full path, in the order the loops visit them.\<close>

definition pdf_paths :: "(string \<times> string list) list \<Rightarrow> string list" where
  "pdf_paths walk =
     concat (map (\<lambda>(rootdir, files).
       map (path_join rootdir) (filter (\<lambda>name. endswith (lower name) ''.pdf'') files)) walk)"

text \<open>
  The chunks of a document: the segmenter's result, with the defaults, on the text
  extracted from it (none when the extraction raises).
\<close>

definition doc_chunks :: "('e, 'v) collaborators \<Rightarrow> string \<Rightarrow> string list" where
  "doc_chunks C full =
     (case extract_text_from_pdf C full of
        Inl e \<Rightarrow> []
      | Inr txt \<Rightarrow> (case chunk_text txt 800 120 of None \<Rightarrow> [] | Some chunks \<Rightarrow> chunks))"

text \<open>
  What a committed batch shows of one document: its chunk texts, and the \<open>source\<close>
  and \<open>chunk_index\<close> values of its metadata.
\<close>

definition batch_view :: "batch \<Rightarrow> string list \<times> string list \<times> nat list" where
  "batch_view b =
     (case b of (ids, texts, metas) \<Rightarrow> (texts, map source metas, map chunk_index metas))"

text \<open>
  What the documents \<open>docs\<close> are expected to leave in the store: for every document
  with at least one chunk, in order, its chunks, its path once per chunk, and the
  indices \<open>0, 1, ..., k - 1\<close>.
\<close>

definition doc_batches ::
  "('e, 'v) collaborators \<Rightarrow> string list \<Rightarrow> (string list \<times> string list \<times> nat list) list" where
  "doc_batches C docs =
     map (\<lambda>d. (doc_chunks C d, replicate (length (doc_chunks C d)) d,
                [0..<length (doc_chunks C d)]))
       (filter (\<lambda>d. doc_chunks C d \<noteq> []) docs)"

text \<open>
  Extraction, embedding or the store commit raises \<open>e\<close> for the file \<open>full\<close>, when
  the run has reached the state \<open>st\<close>.
\<close>

definition collaborator_fails ::
  "('e, 'v) collaborators \<Rightarrow> string \<Rightarrow> ingest_state \<Rightarrow> 'e \<Rightarrow> bool" where
  "collaborator_fails C full st e =
     (case extract_text_from_pdf C full of
        Inl e' \<Rightarrow> e' = e
      | Inr content \<Rightarrow>
         (case chunk_text content 800 120 of
            None \<Rightarrow> False
          | Some chunks \<Rightarrow>
             chunks \<noteq> [] \<and>
             (case encode C chunks of
                Inl e' \<Rightarrow> e' = e
              | Inr vecs \<Rightarrow>
                 store_add C (committed st)
                   (make_ids (uuid4_hex C) (uuids_drawn st) (length chunks), chunks,
                    make_metas full (length chunks)) = Some e)))"

text \<open>The calls one file can cause, each listed once.\<close>

definition file_calls :: "('e, 'v) collaborators \<Rightarrow> string \<Rightarrow> ingest_state \<Rightarrow> call list" where
  "file_calls C full st =
     [ProgressCb (''Parsing '' @ full), OpenPdf full, Encode (doc_chunks C full),
      StoreAdd (make_ids (uuid4_hex C) (uuids_drawn st) (length (doc_chunks C full)))
        (doc_chunks C full) (make_metas full (length (doc_chunks C full)))]"

section \<open>The query orchestrator (vectorstore.py)\<close>







section \<open>The citation normalizer (citations.py)\<close>

text \<open>
  A parsed JSON value, as \<open>r.json()\<close> returns it: \<open>None\<close>, a boolean, an integer,
  a string, a list, or a dictionary (its items in order, the keys distinct). Numbers
  with a fraction are not modelled.
\<close>

datatype json =
  JNull | JBool bool | JInt int | JStr string | JArr "json list"
| JObj "(string \<times> json) list"

text \<open>\<open>v.get(key, dflt)\<close>: only a dictionary has the method.\<close>

definition dict_get :: "json \<Rightarrow> string \<Rightarrow> json \<Rightarrow> 'e exn + json" where
  "dict_get v key dflt =
     (case v of
        JObj items \<Rightarrow> Inr (case map_of items key of None \<Rightarrow> dflt | Some x \<Rightarrow> x)
      | _ \<Rightarrow> Inl AttributeError)"

text \<open>
  \<open>v[0]\<close>: the first element of a list or the first character of a string; a
  dictionary has no key \<open>0\<close> (its keys are strings); nothing else can be indexed.
\<close>

definition subscript0 :: "json \<Rightarrow> 'e exn + json" where
  "subscript0 v =
     (case v of
        JArr [] \<Rightarrow> Inl IndexError
      | JArr (x # _) \<Rightarrow> Inr x
      | JStr [] \<Rightarrow> Inl IndexError
      | JStr (c # _) \<Rightarrow> Inr (JStr [c])
      | JObj _ \<Rightarrow> Inl KeyError
      | _ \<Rightarrow> Inl TypeError)"

text \<open>\<open>for a in v\<close>: the elements of a list, the characters of a string, the keys
  of a dictionary.\<close>

definition iter_items :: "json \<Rightarrow> 'e exn + json list" where
  "iter_items v =
     (case v of
        JArr xs \<Rightarrow> Inr xs
      | JStr s \<Rightarrow> Inr (map (\<lambda>c. JStr [c]) s)
      | JObj items \<Rightarrow> Inr (map (\<lambda>kv. JStr (fst kv)) items)
      | _ \<Rightarrow> Inl TypeError)"

text \<open>The truth value of \<open>v\<close> in a condition.\<close>

definition truthy :: "json \<Rightarrow> bool" where
  "truthy v =
     (case v of
        JNull \<Rightarrow> False | JBool b \<Rightarrow> b | JInt i \<Rightarrow> i \<noteq> 0 | JStr s \<Rightarrow> s \<noteq> []
      | JArr xs \<Rightarrow> xs \<noteq> [] | JObj items \<Rightarrow> items \<noteq> [])"

text \<open>
  \<open>str(v)\<close>, as an f-string inserts a value. The text Python prints for a list or
  a dictionary is the parameter \<open>repr\<close>.
\<close>

definition py_str :: "(json \<Rightarrow> string) \<Rightarrow> json \<Rightarrow> string" where
  "py_str repr v =
     (case v of
        JNull \<Rightarrow> ''None'' | JBool b \<Rightarrow> (if b then ''True'' else ''False'')
      | JInt i \<Rightarrow> str_int i | JStr s \<Rightarrow> s | _ \<Rightarrow> repr v)"

text \<open>\<open>v + s\<close> for a string \<open>s\<close>: only a string can be concatenated with it.\<close>

definition str_plus :: "json \<Rightarrow> string \<Rightarrow> 'e exn + string" where
  "str_plus v s = (case v of JStr a \<Rightarrow> Inr (a @ s) | _ \<Rightarrow> Inl TypeError)"

text \<open>\<open>sub in s\<close>.\<close>

fun contains :: "string \<Rightarrow> string \<Rightarrow> bool" where
  "contains sub [] = (sub = [])"
| "contains sub (c # cs) = (take (length sub) (c # cs) = sub \<or> contains sub cs)"

text \<open>
  \<open>identifier.split("doi.org/")[-1]\<close>: the scan goes left to right; \<open>piece\<close> is what
  follows the last marker found so far (the whole string before any is found).
\<close>

fun after_marker :: "string \<Rightarrow> string \<Rightarrow> string" where
  "after_marker piece [] = piece"
| "after_marker piece (c # cs) =
     (if take 8 (c # cs) = ''doi.org/'' then after_marker (drop 7 cs) (drop 7 cs)
      else after_marker piece cs)"

text \<open>
  \<open>_crossref_lookup\<close>. \<open>http_get url\<close> stands for the request, the status check and
  the decoding of the body: the parsed body, or the exception one of them raises.
\<close>

definition crossref_lookup :: "(string \<Rightarrow> 'e + json) \<Rightarrow> string \<Rightarrow> 'e exn + json" where
  "crossref_lookup http_get identifier =
     (let doi = (if contains ''doi.org/'' identifier then after_marker identifier identifier
                 else identifier);
          url = ''https://api.crossref.org/works/'' @ doi
      in case http_get url of
           Inl e \<Rightarrow> Inl (Raised e)
         | Inr body \<Rightarrow> dict_get body ''message'' (JObj []))"

text \<open>One element of the author list comprehension: \<open>"Family, Given"\<close>.\<close>

definition author_name :: "(json \<Rightarrow> string) \<Rightarrow> json \<Rightarrow> 'e exn + string" where
  "author_name repr a =
     and_then (dict_get a ''family'' (JStr [])) (\<lambda>family.
     and_then (dict_get a ''given'' (JStr [])) (\<lambda>given.
     Inr (py_str repr family @ '', '' @ py_str repr given)))"

text \<open>\<open>_to_bibtex\<close>, statement by statement.\<close>

definition to_bibtex :: "(json \<Rightarrow> string) \<Rightarrow> json \<Rightarrow> 'e exn + string" where
  "to_bibtex repr message =
     and_then (dict_get message ''author'' (JArr [])) (\<lambda>authors.
     and_then (iter_items authors) (\<lambda>items.
     and_then (map_raising (author_name repr) items) (\<lambda>names.
     and_then (dict_get message ''title'' (JArr [JStr []])) (\<lambda>titles.
     and_then (subscript0 titles) (\<lambda>title.
     and_then (dict_get message ''issued'' (JObj [])) (\<lambda>issued.
     and_then (dict_get issued ''date-parts'' (JArr [JArr [JNull]])) (\<lambda>date_parts.
     and_then (subscript0 date_parts) (\<lambda>first_date.
     and_then (subscript0 first_date) (\<lambda>year.
     and_then (dict_get message ''DOI'' (JStr [])) (\<lambda>doi.
     and_then (if truthy authors
               then and_then (subscript0 authors) (\<lambda>a. dict_get a ''family'' (JStr []))
               else Inr (JStr ''paper'')) (\<lambda>key_start.
     and_then (str_plus key_start (if truthy year then py_str repr year else [])) (\<lambda>entry_key.
     Inr (''@article{'' @ entry_key @ '','' @ [CHR 0x0A] @
          ''  title={ '' @ py_str repr title @ '' },'' @ [CHR 0x0A] @
          ''  author={ '' @ join_str '' and '' names @ '' },'' @ [CHR 0x0A] @
          ''  year={ '' @ (if truthy year then py_str repr year else []) @ '' },'' @ [CHR 0x0A] @
          ''  doi={ '' @ py_str repr doi @ '' }'' @ [CHR 0x0A] @
          ''}'')))))))))))))"

text \<open>
  \<open>build_citations\<close>. \<open>dumps\<close> is \<open>json.dumps(messages, indent=2)\<close> of the standard
  library.
\<close>

definition build_citations ::
  "(json \<Rightarrow> string) \<Rightarrow> (json list \<Rightarrow> string) \<Rightarrow> (string \<Rightarrow> 'e + json)
     \<Rightarrow> string list \<Rightarrow> string \<Rightarrow> 'e exn + string" where
  "build_citations repr dumps http_get identifiers style =
     and_then (map_raising (crossref_lookup http_get) identifiers) (\<lambda>messages.
       if lower style = ''bibtex''
       then and_then (map_raising (to_bibtex repr) messages) (\<lambda>entries.
              Inr (join_str [CHR 0x0A, CHR 0x0A] entries))
       else Inr (dumps messages))"

section \<open>Sample collaborators and inputs\<close>

text \<open>
  A small library: \<open>lib/a.pdf\<close> has two pages, \<open>lib/sub/b.PDF\<close> one, and
  \<open>lib/sub/blank.pdf\<close> only whitespace; every other file cannot be read. The
  embedding client and the store accept everything, and the random generator
  always draws the same identifier.
\<close>

definition sample_library :: "(string, nat) collaborators" where
  "sample_library =
     \<lparr>page_texts = (\<lambda>p. if p = ''lib/a.pdf'' then Inr [''alpha beta'', ''gamma'']
                         else if p = ''lib/sub/b.PDF'' then Inr [''one two'']
                         else if p = ''lib/sub/blank.pdf'' then Inr [''  '', []]
                         else Inl ''ExtractionError''),
      encode = (\<lambda>chunks. Inr (map length chunks)),
      store_add = (\<lambda>before b. None),
      uuid4_hex = (\<lambda>n. ''u''),
      progress_cb = True\<rparr>"

definition sample_walk :: "(string \<times> string list) list" where
  "sample_walk =
     [(''lib'', [''a.pdf'', ''notes.txt'']), (''lib/sub'', [''blank.pdf'', ''b.PDF''])]"

definition empty_state :: ingest_state where
  "empty_state = \<lparr>committed = [], calls = [], uuids_drawn = 0\<rparr>"

text \<open>
  A library whose only document has 801 tokens on one page, two chunks with the
  defaults; no progress callback is passed.
\<close>

definition big_text :: string where
  "big_text = concat (replicate 801 ''w '')"

definition big_library :: "(string, nat) collaborators" where
  "big_library =
     \<lparr>page_texts = (\<lambda>p. Inr [big_text]),
      encode = (\<lambda>chunks. Inr (map length chunks)),
      store_add = (\<lambda>before b. None),
      uuid4_hex = (\<lambda>n. ''u''),
      progress_cb = False\<rparr>"

definition big_chunks :: "string list" where
  "big_chunks =
     [strip (concat (replicate 800 ''w '')), strip (concat (replicate 121 ''w ''))]"

definition big_walk :: "(string \<times> string list) list" where
  "big_walk = [(''lib'', [''big.pdf'', ''readme.md''])]"

text \<open>The state after the run over \<open>big_walk\<close>.\<close>

definition big_state :: ingest_state where
  "big_state =
     \<lparr>committed =
        [([''u-0'', ''u-1''], big_chunks,
          [\<lparr>source = ''lib/big.pdf'', chunk_index = 0\<rparr>,
           \<lparr>source = ''lib/big.pdf'', chunk_index = 1\<rparr>])],
      calls =
        [OpenPdf ''lib/big.pdf'', Encode big_chunks,
         StoreAdd [''u-0'', ''u-1''] big_chunks
           [\<lparr>source = ''lib/big.pdf'', chunk_index = 0\<rparr>,
            \<lparr>source = ''lib/big.pdf'', chunk_index = 1\<rparr>]],
      uuids_drawn = 2\<rparr>"

text \<open>The state after \<open>lib/a.pdf\<close> alone has been ingested.\<close>

definition state_after_a :: ingest_state where
  "state_after_a =
     \<lparr>committed =
        [([''u-0''], [''alpha beta'' @ [CHR 0x0A] @ ''gamma''],
          [\<lparr>source = ''lib/a.pdf'', chunk_index = 0\<rparr>])],
      calls =
        [ProgressCb ''Parsing lib/a.pdf'', OpenPdf ''lib/a.pdf'',
         Encode [''alpha beta'' @ [CHR 0x0A] @ ''gamma''],
         StoreAdd [''u-0''] [''alpha beta'' @ [CHR 0x0A] @ ''gamma'']
           [\<lparr>source = ''lib/a.pdf'', chunk_index = 0\<rparr>]],
      uuids_drawn = 1\<rparr>"



text \<open>The bibliographic record of the example, and a resolver that knows only its DOI.\<close>

definition doe_record :: json where
  "doe_record =
     JObj [(''author'', JArr [JObj [(''family'', JStr ''Doe''), (''given'', JStr ''Jane'')]]),
           (''title'', JArr [JStr ''A Study'']),
           (''issued'', JObj [(''date-parts'', JArr [JArr [JInt 2021]])]),
           (''DOI'', JStr ''10.1000/xyz123'')]"

definition doe_resolver :: "string \<Rightarrow> unit + json" where
  "doe_resolver url =
     (if url = ''https://api.crossref.org/works/10.1000/xyz123''
      then Inr (JObj [(''message'', doe_record)]) else Inl ())"



section \<open>Auxiliary notions of the proofs\<close>

text \<open>
  A token of the regex is a non-empty word followed by whitespace only; a separated
  token has at least one whitespace character. In a token list of the regex every
  token but the last is separated.
\<close>

definition tok :: "string \<Rightarrow> bool" where
  "tok t \<longleftrightarrow> word t \<noteq> [] \<and> (\<forall>c\<in>set (dropWhile (\<lambda>c. \<not> isspace c) t). isspace c)"

definition sep :: "string \<Rightarrow> bool" where
  "sep t \<longleftrightarrow> tok t \<and> dropWhile (\<lambda>c. \<not> isspace c) t \<noteq> []"


text \<open>The value of a decimal digit.\<close>

definition digit_val :: "char \<Rightarrow> nat" where "digit_val c = of_char c - 48"

text \<open>The two loops of \<open>ingest_folder\<close> as one loop over the PDF paths.\<close>

fun ingest_docs ::
  "('e, 'v) collaborators \<Rightarrow> string list \<Rightarrow> nat \<Rightarrow> ingest_state
     \<Rightarrow> (ingest_state \<times> ('e + nat)) option" where
  "ingest_docs C [] t st = Some (st, Inr t)"
| "ingest_docs C (d # ds) t st =
     (case ingest_file C d st of
        None \<Rightarrow> None
      | Some (st', Inl e) \<Rightarrow> Some (st', Inl e)
      | Some (st', Inr n) \<Rightarrow> ingest_docs C ds (t + n) st')"

section \<open>The segmenter: tokens and windows\<close>

lemma chunk_loop_diverges:
  assumes "chunk_loop tokens chunk_size overlap i chunks = Some r"
  shows "\<not> (chunk_size \<le> overlap \<and> i < int (length tokens))"
proof (rule chunk_loop.raw_induct
    [where P = "\<lambda>tokens chunk_size overlap i chunks r. \<not> (chunk_size \<le> overlap \<and> i < int (length tokens))",
      OF _ assms])
  fix f tokens chunk_size overlap i chunks r
  assume ih: "\<And>tokens chunk_size overlap i chunks r. f tokens chunk_size overlap i chunks = Some r \<Longrightarrow>
           \<not> (chunk_size \<le> overlap \<and> i < int (length tokens))"
    and st: "(if i < int (length tokens)
        then f tokens chunk_size overlap (i + (chunk_size - overlap))
              (chunks @ [strip (concat (py_slice tokens i (i + chunk_size)))])
        else Some chunks) = Some (r :: string list)"
  show "\<not> (chunk_size \<le> overlap \<and> i < int (length tokens))"
  proof
    assume h: "chunk_size \<le> overlap \<and> i < int (length tokens)"
    with st have "f tokens chunk_size overlap (i + (chunk_size - overlap))
              (chunks @ [strip (concat (py_slice tokens i (i + chunk_size)))]) = Some r" by simp
    from ih[OF this] h show False by simp
  qed
qed

lemma lt_ceil_div: "0 < (s::nat) \<Longrightarrow> k * s < n \<longleftrightarrow> k < (n + s - 1) div s"
proof -
  assume s: "0 < s"
  have "k < (n + s - 1) div s \<longleftrightarrow> Suc k \<le> (n + s - 1) div s" by arith
  also have "\<dots> \<longleftrightarrow> Suc k * s \<le> n + s - 1" 
    using s by (simp add: less_eq_div_iff_mult_less_eq)
  also have "\<dots> \<longleftrightarrow> k * s < n" using s by (cases s) auto
  finally show ?thesis by simp
qed

lemma findall_ws:
  assumes w: "w \<noteq> []" "\<forall>c\<in>set w. \<not> isspace c"
    and s: "\<forall>c\<in>set s. isspace c"
    and r: "r = [] \<or> (s \<noteq> [] \<and> \<not> isspace (hd r))"
  shows "findall_tokens (w @ s @ r) = (w @ s) # findall_tokens r"
proof -
  obtain c cs where wc: "w = c # cs" using w(1) by (cases w) auto
  have c: "\<not> isspace c" and cs: "\<forall>x\<in>set cs. \<not> isspace x" using w(2) wc by auto
  have sr: "takeWhile isspace (s @ r) = s \<and> dropWhile isspace (s @ r) = r"
  proof (cases r)
    case Nil
    then show ?thesis using s by simp
  next
    case (Cons a r')
    with r have "\<not> isspace a" by auto
    then show ?thesis using s Cons by (simp add: takeWhile_append2 dropWhile_append2)
  qed
  have nsr: "takeWhile (\<lambda>x. \<not> isspace x) (s @ r) = [] \<and> dropWhile (\<lambda>x. \<not> isspace x) (s @ r) = s @ r"
  proof (cases s)
    case Nil
    with r show ?thesis by simp
  next
    case (Cons a s')
    with s have "isspace a" by auto
    then show ?thesis using Cons by simp
  qed
  have t: "takeWhile (\<lambda>x. \<not> isspace x) (cs @ s @ r) = cs"
    using cs nsr by (simp add: takeWhile_append2)
  have d: "dropWhile (\<lambda>x. \<not> isspace x) (cs @ s @ r) = s @ r"
    using cs nsr by (simp add: dropWhile_append2)
  show ?thesis using c t d sr by (simp add: wc Let_def)
qed


















lemma py_slice_nat:
  assumes "0 \<le> c"
  shows "py_slice xs (int a) (int a + c) = take (nat c) (drop a xs)"
proof (cases "a \<le> length xs")
  case True
  have "take (nat (min (int a + c) (int (length xs)) - int a)) (drop a xs) = take (nat c) (drop a xs)"
  proof (cases "int a + c \<le> int (length xs)")
    case True
    then show ?thesis by (simp add: min_def)
  next
    case False
    then have "length (drop a xs) \<le> nat c" by simp
    moreover have "length (drop a xs) \<le> nat (min (int a + c) (int (length xs)) - int a)"
      using False by (simp add: min_def)
    ultimately show ?thesis by simp
  qed
  then show ?thesis using True assms by (simp add: py_slice_def Let_def min_def)
next
  case False
  then show ?thesis using assms by (simp add: py_slice_def Let_def min_def)
qed

lemma chunk_loop_returns:
  assumes s: "0 < s" and step: "chunk_size - overlap = int s"
  shows "chunk_loop tokens chunk_size overlap (int (k * s)) chunks =
         Some (chunks @ map (\<lambda>j. strip (concat (py_slice tokens (int (j * s)) (int (j * s) + chunk_size))))
                          [k..<(length tokens + s - 1) div s])"
proof (induction "(length tokens + s - 1) div s - k" arbitrary: k chunks)
  case 0
  then have "\<not> k < (length tokens + s - 1) div s" by simp
  then have "\<not> k * s < length tokens" using lt_ceil_div[OF s] by simp
  then have "\<not> int (k * s) < int (length tokens)" unfolding of_nat_less_iff .
  then show ?case using 0 by (subst chunk_loop.simps) simp
next
  case (Suc d)
  then have lt: "k < (length tokens + s - 1) div s" by simp
  then have "k * s < length tokens" using lt_ceil_div[OF s] by simp
  then have c: "int (k * s) < int (length tokens)" unfolding of_nat_less_iff .
  have d: "d = (length tokens + s - 1) div s - Suc k" using Suc(2) by simp
  have nx: "int (k * s) + (chunk_size - overlap) = int (Suc k * s)" using step by simp
  show ?case
    apply (subst chunk_loop.simps)
    apply (simp only: c if_True nx Suc(1)[OF d])
    apply (subst upt_conv_Cons[OF lt])
    apply simp
    done
qed

lemma chunk_text_returns:
  assumes "0 < chunk_size" "0 \<le> overlap" "overlap < chunk_size"
  shows "chunk_text text chunk_size overlap =
         Some (map (\<lambda>j. strip (concat (take (nat chunk_size)
                        (drop (j * nat (chunk_size - overlap)) (findall_tokens text)))))
                   [0..<(length (findall_tokens text) + nat (chunk_size - overlap) - 1) div nat (chunk_size - overlap)])"
proof -
  define s where "s = nat (chunk_size - overlap)"
  have s: "0 < s" and step: "chunk_size - overlap = int s" using assms by (auto simp: s_def)
  have "chunk_text text chunk_size overlap = chunk_loop (findall_tokens text) chunk_size overlap (int (0 * s)) []"
    by (simp add: chunk_text_def)
  also note chunk_loop_returns[OF s step]
  finally have "chunk_text text chunk_size overlap =
      Some (map (\<lambda>j. strip (concat (py_slice (findall_tokens text) (int (j * s)) (int (j * s) + chunk_size))))
        [0..<(length (findall_tokens text) + s - 1) div s])" by simp
  moreover have "py_slice (findall_tokens text) (int (j * s)) (int (j * s) + chunk_size)
      = take (nat chunk_size) (drop (j * s) (findall_tokens text))" for j
    by (rule py_slice_nat) (use assms(1) in simp)
  ultimately show ?thesis by (simp only: s_def)
qed

section \<open>The segmenter: claims\<close>



lemma findall_tokens_whitespace: "\<forall>c\<in>set s. isspace c \<Longrightarrow> findall_tokens s = []"
  by (induction s) auto

lemma chunk_text_no_tokens:
  "findall_tokens s = [] \<Longrightarrow> chunk_text s chunk_size overlap = Some []"
  by (simp add: chunk_text_def chunk_loop.simps)

text \<open>
  Claim C2, as amended. The source checks neither parameter and raises no
  \<open>SegmentationError\<close>. For every text and every \<open>chunk_size > 0\<close>, a call with
  \<open>overlap \<ge> chunk_size\<close> returns the empty sequence when the text has no token;
  when the text has a token the loop condition stays true for ever, because the
  window never moves forward, and the call yields no chunk sequence.
\<close>

theorem chunk_text_bad_overlap:
  assumes "0 < chunk_size" and "chunk_size \<le> overlap"
  shows "chunk_text content chunk_size overlap =
           (if findall_tokens content = [] then Some [] else None)"
proof (cases "findall_tokens content = []")
  case True
  then show ?thesis by (simp add: chunk_text_no_tokens)
next
  case False
  have "chunk_text content chunk_size overlap = None"
  proof (cases "chunk_text content chunk_size overlap")
    case None
    then show ?thesis .
  next
    case (Some r)
    then have "chunk_loop (findall_tokens content) chunk_size overlap 0 [] = Some r"
      by (simp add: chunk_text_def)
    from chunk_loop_diverges[OF this] show ?thesis using assms(2) False by simp
  qed
  then show ?thesis using False by simp
qed

theorem chunk_text_bad_overlap_witness:
  "chunk_text ''one two three'' 2 5 = None \<and> chunk_text ''   '' 2 5 = Some []"
proof -
  have a: "findall_tokens ''one two three'' \<noteq> []" by code_simp
  have b: "findall_tokens ''   '' = []" by code_simp
  have "chunk_text ''one two three'' 2 5 =
      (if findall_tokens ''one two three'' = [] then Some [] else None)"
    by (rule chunk_text_bad_overlap) simp_all
  moreover have "chunk_text ''   '' 2 5 = (if findall_tokens ''   '' = [] then Some [] else None)"
    by (rule chunk_text_bad_overlap) simp_all
  ultimately show ?thesis using a b by simp
qed

text \<open>
  The claim as the specification states it fails: with \<open>overlap = chunk_size = 2\<close>
  the loop on \<open>a b\<close> never reaches its exit, which is the indefinite looping the
  claim excludes, and the call on the empty text returns the empty sequence instead of
  failing.
\<close>

theorem chunk_text_bad_overlap_counterexample:
  "chunk_text ''a b'' 2 2 = None \<and> chunk_text [] 2 2 = Some []"
proof -
  have "chunk_text ''a b'' 2 2 = None"
  proof (cases "chunk_text ''a b'' 2 2")
    case None
    then show ?thesis .
  next
    case (Some r)
    then have "chunk_loop (findall_tokens ''a b'') 2 2 0 [] = Some r"
      by (simp add: chunk_text_def)
    moreover have "findall_tokens ''a b'' \<noteq> []" by code_simp
    ultimately show ?thesis using chunk_loop_diverges by fastforce
  qed
  moreover have "chunk_text [] 2 2 = Some []" by (simp add: chunk_text_no_tokens)
  ultimately show ?thesis by simp
qed

section \<open>Ingestion: the loops, the identifiers and the sample runs\<close>

lemma findall_replicate: "findall_tokens (concat (replicate n ''w '')) = replicate n ''w ''"
proof (induction n)
  case 0
  then show ?case by simp
next
  case (Suc n)
  have w: "\<not> isspace CHR ''w''" and sp: "isspace CHR '' ''" by (simp_all add: isspace_def)
  have r: "concat (replicate n ''w '') = [] \<or>
      ('' '' \<noteq> [] \<and> \<not> isspace (hd (concat (replicate n ''w ''))))"
    using w by (cases n) simp_all
  have "findall_tokens (''w'' @ '' '' @ concat (replicate n ''w '')) =
      (''w'' @ '' '') # findall_tokens (concat (replicate n ''w ''))"
    by (rule findall_ws) (use w sp r in auto)
  then show ?case using Suc by simp
qed

lemma big_chunk_text: "chunk_text big_text 800 120 = Some big_chunks"
proof -
  have n: "(length (replicate 801 ''w '') + nat (800 - 120) - 1) div nat (800 - 120) = Suc (Suc 0)"
    by simp
  have "chunk_text big_text 800 120 =
      Some (map (\<lambda>j. strip (concat (take (nat 800) (drop (j * nat (800 - 120)) (replicate 801 ''w '')))))
             [0..<Suc (Suc 0)])"
    using chunk_text_returns[of 800 120 big_text]
    unfolding big_text_def findall_replicate n by simp
  then show ?thesis by (simp add: big_chunks_def)
qed


lemma of_char_digit: "d < 10 \<Longrightarrow> of_char (digit_char d) = 48 + d"
  by (simp add: digit_char_def)

lemma str_nat_decode: "foldl (\<lambda>a c. 10 * a + digit_val c) 0 (str_nat n) = n"
proof (induction n rule: str_nat.induct)
  case (1 n)
  show ?case
  proof (cases "n < 10")
    case True
    then show ?thesis by (subst str_nat.simps) (simp add: digit_val_def of_char_digit)
  next
    case False
    have "n mod 10 < 10" by simp
    then have "digit_val (digit_char (n mod 10)) = n mod 10"
      by (simp add: digit_val_def of_char_digit)
    then show ?thesis using False 1[OF False] by (subst str_nat.simps) simp
  qed
qed

lemma str_nat_inj: "str_nat m = str_nat n \<Longrightarrow> m = n"
  by (metis str_nat_decode)

lemma str_nat_no_dash: "CHR ''-'' \<notin> set (str_nat n)"
proof (induction n rule: str_nat.induct)
  case (1 n)
  have d: "digit_char k \<noteq> CHR ''-''" if "k < 10" for k
  proof
    assume "digit_char k = CHR ''-''"
    then have "of_char (digit_char k) = (of_char CHR ''-'' :: nat)" by simp
    then show False using that by (simp add: of_char_digit)
  qed
  show ?case
  proof (cases "n < 10")
    case True
    then show ?thesis using d[of n] by (subst str_nat.simps) auto
  next
    case False
    have "n mod 10 < 10" by simp
    then show ?thesis using False 1[OF False] d[of "n mod 10"] by (subst str_nat.simps) auto
  qed
qed

lemma id_suffix:
  "takeWhile (\<lambda>c. c \<noteq> CHR ''-'') (rev (u @ ''-'' @ str_nat i)) = rev (str_nat i)"
proof -
  have "\<forall>c\<in>set (rev (str_nat i)). c \<noteq> CHR ''-''" using str_nat_no_dash[of i] by auto
  then have "takeWhile (\<lambda>c. c \<noteq> CHR ''-'') (rev (str_nat i) @ CHR ''-'' # rev u) = rev (str_nat i)"
    by (simp add: takeWhile_tail)
  then show ?thesis by simp
qed

lemma make_ids_distinct: "distinct (make_ids uuid k n)"
proof -
  have "inj_on (\<lambda>i. uuid (k + i) @ ''-'' @ str_nat i) (set [0..<n])"
  proof (rule inj_onI)
    fix i j
    assume "uuid (k + i) @ ''-'' @ str_nat i = uuid (k + j) @ ''-'' @ str_nat j"
    then have "takeWhile (\<lambda>c. c \<noteq> CHR ''-'') (rev (uuid (k + i) @ ''-'' @ str_nat i))
        = takeWhile (\<lambda>c. c \<noteq> CHR ''-'') (rev (uuid (k + j) @ ''-'' @ str_nat j))" by (rule arg_cong)
    then have "rev (str_nat i) = rev (str_nat j)" by (simp only: id_suffix)
    then show "i = j" using str_nat_inj by simp
  qed
  then show ?thesis unfolding make_ids_def by (simp add: distinct_map)
qed

lemma chunk_text_default: "\<exists>chunks. chunk_text txt 800 120 = Some chunks"
  using chunk_text_returns[of 800 120] by simp


lemma ingest_names_docs:
  "ingest_names C rootdir names t st =
   ingest_docs C (map (path_join rootdir) (filter (\<lambda>name. endswith (lower name) ''.pdf'') names)) t st"
  by (induction names arbitrary: t st) (auto split: option.splits sum.splits prod.splits)

lemma ingest_docs_append:
  "ingest_docs C (xs @ ys) t st =
     (case ingest_docs C xs t st of
        None \<Rightarrow> None
      | Some (st', Inl e) \<Rightarrow> Some (st', Inl e)
      | Some (st', Inr t') \<Rightarrow> ingest_docs C ys t' st')"
  by (induction xs arbitrary: t st) (auto split: option.splits sum.splits prod.splits)

lemma ingest_walk_docs: "ingest_walk C walk t st = ingest_docs C (pdf_paths walk) t st"
proof (induction walk arbitrary: t st)
  case Nil
  then show ?case by (simp add: pdf_paths_def)
next
  case (Cons a walk)
  obtain rootdir files where a: "a = (rootdir, files)" by (cases a)
  have p: "pdf_paths (a # walk) =
      map (path_join rootdir) (filter (\<lambda>name. endswith (lower name) ''.pdf'') files) @ pdf_paths walk"
    by (simp add: pdf_paths_def a)
  show ?case unfolding p ingest_docs_append
    by (simp add: a ingest_names_docs Cons.IH split: option.splits sum.splits prod.splits)
qed

lemma ingest_file_total: "\<exists>st' r. ingest_file C full st = Some (st', r)"
proof (cases "extract_text_from_pdf C full")
  case (Inl e)
  then show ?thesis by (simp add: ingest_file_def Let_def)
next
  case (Inr content)
  obtain chunks where c: "chunk_text content 800 120 = Some chunks"
    using chunk_text_default by blast
  show ?thesis
    by (simp add: ingest_file_def Let_def Inr c split: sum.splits option.splits)
qed

lemma ingest_file_Inr:
  assumes "ingest_file C full st = Some (st', Inr n)"
  shows "n = length (doc_chunks C full) \<and>
         committed st' = committed st @
           (if n = 0 then []
            else [(make_ids (uuid4_hex C) (uuids_drawn st) n, doc_chunks C full, make_metas full n)])"
proof (cases "extract_text_from_pdf C full")
  case (Inl e)
  then show ?thesis using assms by (simp add: ingest_file_def Let_def)
next
  case (Inr content)
  obtain chunks where c: "chunk_text content 800 120 = Some chunks"
    using chunk_text_default by blast
  have d: "doc_chunks C full = chunks" by (simp add: doc_chunks_def Inr c)
  show ?thesis using assms
    by (auto simp: ingest_file_def Let_def Inr c d log_call_def split: sum.splits option.splits if_splits)
qed

lemma ingest_file_Inl:
  assumes "ingest_file C full st = Some (st', Inl e)"
  shows "committed st' = committed st"
  using assms
  by (auto simp: ingest_file_def Let_def log_call_def split: sum.splits option.splits if_splits)

lemma batch_view_make: "batch_view (ids, chunks, make_metas full n) = (chunks, replicate n full, [0..<n])"
  by (simp add: batch_view_def make_metas_def comp_def map_replicate_const)

lemma ingest_docs_Inr:
  assumes "ingest_docs C docs t st = Some (st', Inr tot)"
  shows "tot = t + sum_list (map (\<lambda>d. length (doc_chunks C d)) docs) \<and>
         (\<exists>new. committed st' = committed st @ new \<and> map batch_view new = doc_batches C docs)"
  using assms
proof (induction docs arbitrary: t st)
  case Nil
  then show ?case by (simp add: doc_batches_def)
next
  case (Cons d docs)
  obtain st1 r where f: "ingest_file C d st = Some (st1, r)" using ingest_file_total by blast
  show ?case
  proof (cases r)
    case (Inl e)
    then show ?thesis using Cons.prems f by simp
  next
    case (Inr n)
    have rest: "ingest_docs C docs (t + n) st1 = Some (st', Inr tot)"
      using Cons.prems f Inr by simp
    note ih = Cons.IH[OF rest]
    note one = ingest_file_Inr[OF f[unfolded Inr]]
    from ih obtain new where new: "committed st' = committed st1 @ new" "map batch_view new = doc_batches C docs"
      by blast
    show ?thesis
    proof (cases "n = 0")
      case True
      then show ?thesis using ih one new by (auto simp: doc_batches_def)
    next
      case False
      then have ne: "doc_chunks C d \<noteq> []" using one by auto
      have "committed st' = committed st @ ((make_ids (uuid4_hex C) (uuids_drawn st) n, doc_chunks C d, make_metas d n) # new)"
        using one new False by simp
      moreover have "map batch_view ((make_ids (uuid4_hex C) (uuids_drawn st) n, doc_chunks C d, make_metas d n) # new)
          = doc_batches C (d # docs)"
        using new(2) ne one by (simp add: doc_batches_def batch_view_make)
      moreover have "tot = t + sum_list (map (\<lambda>d. length (doc_chunks C d)) (d # docs))"
        using ih one by simp
      ultimately show ?thesis by blast
    qed
  qed
qed

lemma ingest_docs_total: "\<exists>st' r. ingest_docs C docs t st = Some (st', r)"
proof (induction docs arbitrary: t st)
  case Nil
  then show ?case by simp
next
  case (Cons d docs)
  obtain st1 r where f: "ingest_file C d st = Some (st1, r)" using ingest_file_total by blast
  show ?case using f Cons.IH by (cases r) auto
qed

lemma collaborator_fails_file:
  assumes "collaborator_fails C full st e"
  shows "\<exists>st2 tail. ingest_file C full st = Some (st2, Inl e) \<and> committed st2 = committed st \<and>
           calls st2 = calls st @ tail \<and> distinct tail \<and> set tail \<subseteq> set (file_calls C full st)"
proof (cases "extract_text_from_pdf C full")
  case (Inl e')
  then have e: "e' = e" using assms by (simp add: collaborator_fails_def)
  show ?thesis
    by (cases "progress_cb C") (simp_all add: ingest_file_def Let_def Inl e log_call_def file_calls_def)
next
  case (Inr content)
  obtain chunks where c: "chunk_text content 800 120 = Some chunks"
    using chunk_text_default by blast
  have d: "doc_chunks C full = chunks" by (simp add: doc_chunks_def Inr c)
  have ne: "chunks \<noteq> []" using assms by (simp add: collaborator_fails_def Inr c)
  show ?thesis
  proof (cases "encode C chunks")
    case (Inl e')
    then have e: "e' = e" using assms by (simp add: collaborator_fails_def Inr c ne)
    show ?thesis
      by (cases "progress_cb C")
        (simp_all add: ingest_file_def Let_def Inr c ne Inl e d log_call_def file_calls_def)
  next
    case enc: (Inr vecs)
    have s: "store_add C (committed st)
        (make_ids (uuid4_hex C) (uuids_drawn st) (length chunks), chunks, make_metas full (length chunks)) = Some e"
      using assms by (simp add: collaborator_fails_def Inr c ne enc)
    show ?thesis
      by (cases "progress_cb C")
        (simp_all add: ingest_file_def Let_def Inr c ne enc s d log_call_def file_calls_def)
  qed
qed

lemma pdf_paths_append: "pdf_paths (xs @ ys) = pdf_paths xs @ pdf_paths ys"
  by (simp add: pdf_paths_def)

lemma pdf_paths_split:
  assumes "endswith (lower name) ''.pdf''"
  shows "pdf_paths (before @ (rootdir, names1 @ name # names2) # rest) =
         pdf_paths (before @ [(rootdir, names1)]) @ path_join rootdir name #
           pdf_paths ((rootdir, names2) # rest)"
  using assms by (simp add: pdf_paths_def)

lemma ingest_file_new:
  assumes "ingest_file C full st = Some (st', r)"
  shows "\<exists>new. committed st' = committed st @ new \<and>
           (\<forall>b\<in>set new. distinct (fst b) \<and> length (fst b) = length (fst (snd b)))"
proof (cases r)
  case (Inl e)
  then show ?thesis using ingest_file_Inl assms by fastforce
next
  case (Inr n)
  have "length (make_ids (uuid4_hex C) (uuids_drawn st) n) = n" by (simp add: make_ids_def)
  then show ?thesis using ingest_file_Inr[OF assms[unfolded Inr]] make_ids_distinct by auto
qed

lemma ingest_docs_new:
  assumes "ingest_docs C docs t st = Some (st', r)"
  shows "\<exists>new. committed st' = committed st @ new \<and>
           (\<forall>b\<in>set new. distinct (fst b) \<and> length (fst b) = length (fst (snd b)))"
  using assms
proof (induction docs arbitrary: t st)
  case Nil
  then show ?case by simp
next
  case (Cons d docs)
  obtain st1 r1 where f: "ingest_file C d st = Some (st1, r1)" using ingest_file_total by blast
  from ingest_file_new[OF f] obtain new1 where n1:
    "committed st1 = committed st @ new1"
    "\<forall>b\<in>set new1. distinct (fst b) \<and> length (fst b) = length (fst (snd b))" by blast
  show ?case
  proof (cases r1)
    case (Inl e)
    then have "st' = st1" using Cons.prems f by simp
    then show ?thesis using n1 by blast
  next
    case (Inr n)
    then have "ingest_docs C docs (t + n) st1 = Some (st', r)" using Cons.prems f by simp
    from Cons.IH[OF this] obtain new2 where n2:
      "committed st' = committed st1 @ new2"
      "\<forall>b\<in>set new2. distinct (fst b) \<and> length (fst b) = length (fst (snd b))" by blast
    have "committed st' = committed st @ (new1 @ new2)" using n1(1) n2(1) by simp
    moreover have "\<forall>b\<in>set (new1 @ new2). distinct (fst b) \<and> length (fst b) = length (fst (snd b))"
      using n1(2) n2(2) by auto
    ultimately show ?thesis by blast
  qed
qed



lemma big_ids: "make_ids (\<lambda>n. ''u'') 0 2 = [''u-0'', ''u-1'']"
  by code_simp

lemma big_metas:
  "make_metas full 2 = [\<lparr>source = full, chunk_index = 0\<rparr>, \<lparr>source = full, chunk_index = 1\<rparr>]"
  by (simp add: make_metas_def upt_rec)

lemma big_paths: "pdf_paths big_walk = [''lib/big.pdf'']"
  by code_simp

lemma big_doc_chunks: "doc_chunks big_library full = big_chunks"
  by (simp add: doc_chunks_def extract_text_from_pdf_def big_library_def big_chunk_text)

lemma big_file:
  "ingest_file big_library ''lib/big.pdf'' empty_state = Some (big_state, Inr 2)"
proof -
  have n: "length big_chunks = 2" and ne: "big_chunks \<noteq> []" by (simp_all add: big_chunks_def)
  show ?thesis
    by (simp add: ingest_file_def Let_def extract_text_from_pdf_def big_library_def big_chunk_text
        log_call_def empty_state_def big_state_def n ne big_ids big_metas)
qed

lemma big_run: "ingest_folder big_library big_walk empty_state = Some (big_state, Inr 2)"
proof -
  have "ingest_docs big_library [''lib/big.pdf''] 0 empty_state = Some (big_state, Inr 2)"
    by (simp add: big_file)
  then show ?thesis by (simp add: ingest_folder_def ingest_walk_docs big_paths)
qed

lemma sample_pre:
  "ingest_folder sample_library ([] @ [(''lib'', [''a.pdf'', ''notes.txt''])]) empty_state =
     Some (state_after_a, Inr 1)"
  by code_simp

lemma sample_fails:
  "collaborator_fails sample_library (path_join ''lib'' ''broken.pdf'') state_after_a ''ExtractionError''"
  by code_simp

lemma ingest_file_succeeds:
  assumes "page_texts C d = Inr pages"
    and "\<forall>chunks. \<exists>v. encode C chunks = Inr v"
    and "\<forall>before b. store_add C before b = None"
  shows "\<exists>st' n. ingest_file C d st = Some (st', Inr n)"
proof -
  obtain chunks where c: "chunk_text (join_str [CHR 0x0A] pages) 800 120 = Some chunks"
    using chunk_text_default by blast
  obtain v where v: "encode C chunks = Inr v" using assms(2) by blast
  show ?thesis
    by (simp add: ingest_file_def Let_def extract_text_from_pdf_def assms(1,3) c v)
qed

lemma ingest_docs_succeeds:
  assumes "\<forall>d\<in>set docs. \<exists>pages. page_texts C d = Inr pages"
    and "\<forall>chunks. \<exists>v. encode C chunks = Inr v"
    and "\<forall>before b. store_add C before b = None"
  shows "\<exists>st' tot. ingest_docs C docs t st = Some (st', Inr tot)"
  using assms(1)
proof (induction docs arbitrary: t st)
  case Nil
  then show ?case by simp
next
  case (Cons d docs)
  then obtain pages where p: "page_texts C d = Inr pages" by auto
  from ingest_file_succeeds[OF p assms(2,3)] obtain st1 n where
    f: "ingest_file C d st = Some (st1, Inr n)" by blast
  have "\<forall>d\<in>set docs. \<exists>pages. page_texts C d = Inr pages" using Cons.prems by simp
  from Cons.IH[OF this] show ?case by (simp add: f)
qed

section \<open>Ingestion: claims\<close>

text \<open>
  Claim C3. A run of \<open>ingest_folder\<close> always ends, and it returns a count when
  every PDF document of the folder can be read and neither the embedding client nor the
  store raises. When it returns a count, the count is the sum, over the PDF documents of
  the folder, of the number of chunks each produces; and the batches it has added to
  the store are, in order, one per document with at least one chunk, holding that
  document's chunks, its path as the source of every chunk, and the chunk indices
  \<open>0, 1, ..., k - 1\<close> with no gap and no repeat.
\<close>

theorem ingest_folder_counts_chunks:
  "(\<exists>st' r. ingest_folder C walk st = Some (st', r)) \<and>
   ((\<forall>d\<in>set (pdf_paths walk). \<exists>pages. page_texts C d = Inr pages) \<and>
    (\<forall>chunks. \<exists>v. encode C chunks = Inr v) \<and>
    (\<forall>before b. store_add C before b = None) \<longrightarrow>
      (\<exists>st' tot. ingest_folder C walk st = Some (st', Inr tot))) \<and>
   (\<forall>st' tot. ingest_folder C walk st = Some (st', Inr tot) \<longrightarrow>
      tot = sum_list (map (\<lambda>d. length (doc_chunks C d)) (pdf_paths walk)) \<and>
      (\<exists>new. committed st' = committed st @ new \<and>
         map batch_view new = doc_batches C (pdf_paths walk)))"
  using ingest_docs_total[of C "pdf_paths walk" 0 st] ingest_docs_Inr[of C "pdf_paths walk" 0 st]
    ingest_docs_succeeds[of "pdf_paths walk" C 0 st]
  by (simp add: ingest_folder_def ingest_walk_docs)

theorem ingest_folder_counts_chunks_witness:
  "ingest_folder big_library big_walk empty_state = Some (big_state, Inr 2) \<and>
   map (\<lambda>d. length (doc_chunks big_library d)) (pdf_paths big_walk) = [2] \<and>
   map batch_view (committed big_state) =
     [(big_chunks, [''lib/big.pdf'', ''lib/big.pdf''], [0, 1])]"
proof -
  have n: "length big_chunks = 2" and ne: "big_chunks \<noteq> []"
    by (simp_all add: big_chunks_def)
  have d: "doc_batches big_library (pdf_paths big_walk) =
      [(big_chunks, [''lib/big.pdf'', ''lib/big.pdf''], [0, 1])]"
    by (simp add: doc_batches_def big_paths big_doc_chunks n ne upt_rec replicate_Suc numeral_2_eq_2)
  have "\<exists>new. committed big_state = committed empty_state @ new \<and>
      map batch_view new = doc_batches big_library (pdf_paths big_walk)"
    using ingest_folder_counts_chunks[of big_library big_walk empty_state] big_run by blast
  then have "map batch_view (committed big_state) = doc_batches big_library (pdf_paths big_walk)"
    by (auto simp: empty_state_def)
  then show ?thesis using big_run d by (simp add: big_paths big_doc_chunks n)
qed

text \<open>
  Claim C4. Let the files before a PDF file be ingested without error, and let
  extraction, embedding or the store commit raise \<open>e\<close> for that file. Then the whole
  call ends with \<open>e\<close> itself, whatever files and directories follow; the store holds
  exactly the batches committed before the failure, which extend what it held at the
  start; and since the state before the failing file the trace has grown only by calls
  for that file, none of them twice.
\<close>

theorem ingest_folder_fail_fast:
  assumes pdf: "endswith (lower name) ''.pdf''"
    and pre: "ingest_folder C (before @ [(rootdir, names1)]) st = Some (st1, Inr t1)"
    and fails: "collaborator_fails C (path_join rootdir name) st1 e"
  shows "\<exists>st2 tail.
           ingest_folder C (before @ (rootdir, names1 @ name # names2) # rest) st =
             Some (st2, Inl e) \<and>
           committed st2 = committed st1 \<and>
           (\<exists>new. committed st1 = committed st @ new) \<and>
           calls st2 = calls st1 @ tail \<and> distinct tail \<and>
           set tail \<subseteq> set (file_calls C (path_join rootdir name) st1)"
proof -
  have p: "ingest_docs C (pdf_paths (before @ [(rootdir, names1)])) 0 st = Some (st1, Inr t1)"
    using pre by (simp add: ingest_folder_def ingest_walk_docs)
  from collaborator_fails_file[OF fails] obtain st2 tail where f:
    "ingest_file C (path_join rootdir name) st1 = Some (st2, Inl e)"
    "committed st2 = committed st1" "calls st2 = calls st1 @ tail" "distinct tail"
    "set tail \<subseteq> set (file_calls C (path_join rootdir name) st1)" by blast
  have "ingest_folder C (before @ (rootdir, names1 @ name # names2) # rest) st = Some (st2, Inl e)"
    unfolding ingest_folder_def ingest_walk_docs pdf_paths_split[OF pdf] ingest_docs_append
    by (simp add: p f(1))
  moreover have "\<exists>new. committed st1 = committed st @ new"
    using ingest_docs_new[OF p] by blast
  ultimately show ?thesis using f by blast
qed

theorem ingest_folder_fail_fast_witness:
  "\<exists>st2. ingest_folder sample_library
            [(''lib'', [''a.pdf'', ''notes.txt'', ''broken.pdf'', ''z.pdf'']), (''lib/sub'', [''b.PDF''])]
            empty_state = Some (st2, Inl ''ExtractionError'') \<and>
         committed st2 = committed state_after_a"
proof -
  have pdf: "endswith (lower ''broken.pdf'') ''.pdf''" by code_simp
  from ingest_folder_fail_fast[OF pdf sample_pre sample_fails,
      where ?names2.0 = "[''z.pdf'']" and rest = "[(''lib/sub'', [''b.PDF''])]"]
  show ?thesis by auto
qed

text \<open>
  Claim C9. For a non-empty text of whitespace only the segmenter returns the empty
  sequence, whatever the chunk size and the overlap, as it does for the empty text.
  A PDF file whose extracted text is such a text is skipped: the body of the loop
  makes no embedding call and no store call and adds no chunk, and a folder holding
  only that file yields the count 0 and leaves the store as it was.
\<close>

theorem whitespace_only_document_skipped:
  assumes "content \<noteq> []" and "\<forall>c\<in>set content. isspace c"
  shows "chunk_text content chunk_size overlap = Some [] \<and>
         chunk_text [] chunk_size overlap = Some [] \<and>
         (extract_text_from_pdf C full = Inr content \<longrightarrow>
            ingest_file C full st =
              Some (st\<lparr>calls := calls st @
                       (if progress_cb C then [ProgressCb (''Parsing '' @ full)] else []) @
                       [OpenPdf full]\<rparr>, Inr 0)) \<and>
         (endswith (lower name) ''.pdf'' \<and>
          extract_text_from_pdf C (path_join rootdir name) = Inr content \<longrightarrow>
            (\<exists>st'. ingest_folder C [(rootdir, [name])] st = Some (st', Inr 0) \<and>
                   committed st' = committed st))"
proof -
  have a: "chunk_text content cs ov = Some []" for cs ov
    using assms(2) by (simp add: findall_tokens_whitespace chunk_text_no_tokens)
  have b: "chunk_text [] chunk_size overlap = Some []" by (simp add: chunk_text_no_tokens)
  have c: "ingest_file C p st =
      Some (st\<lparr>calls := calls st @
               (if progress_cb C then [ProgressCb (''Parsing '' @ p)] else []) @ [OpenPdf p]\<rparr>, Inr 0)"
    if "extract_text_from_pdf C p = Inr content" for p
    using that a by (simp add: ingest_file_def Let_def log_call_def)
  show ?thesis using a b c by (simp add: ingest_folder_def)
qed

theorem whitespace_only_document_skipped_witness:
  "chunk_text (''  '' @ [CHR 0x0A]) 800 120 = Some [] \<and>
   ingest_file sample_library ''lib/sub/blank.pdf'' empty_state =
     Some (empty_state\<lparr>calls :=
             [ProgressCb ''Parsing lib/sub/blank.pdf'', OpenPdf ''lib/sub/blank.pdf'']\<rparr>, Inr 0)"
proof -
  have ne: "''  '' @ [CHR 0x0A] \<noteq> []" by simp
  have ws: "\<forall>c\<in>set (''  '' @ [CHR 0x0A]). isspace c" by (simp add: isspace_def)
  have ex: "extract_text_from_pdf sample_library ''lib/sub/blank.pdf'' = Inr (''  '' @ [CHR 0x0A])"
    by (simp add: extract_text_from_pdf_def sample_library_def)
  have cb: "progress_cb sample_library" by (simp add: sample_library_def)
  from whitespace_only_document_skipped[OF ne ws, of 800 120 sample_library
      "''lib/sub/blank.pdf''" empty_state] ex cb
  show ?thesis by (simp add: empty_state_def)
qed

text \<open>
  Claim C10. Whatever the random generator draws, the identifiers of every batch that
  a run of \<open>ingest_folder\<close> commits are pairwise distinct, one per chunk: each ends
  with a dash and the decimal index of its chunk, and the index has no dash.
\<close>

theorem ingest_ids_distinct:
  assumes "ingest_folder C walk st = Some (st', r)"
  shows "\<exists>new. committed st' = committed st @ new \<and>
           (\<forall>(ids, texts, metas)\<in>set new. distinct ids \<and> length ids = length texts)"
proof -
  have "ingest_docs C (pdf_paths walk) 0 st = Some (st', r)"
    using assms by (simp add: ingest_folder_def ingest_walk_docs)
  from ingest_docs_new[OF this] show ?thesis by (auto simp: case_prod_beta)
qed

theorem ingest_ids_distinct_witness:
  "ingest_folder big_library big_walk empty_state = Some (big_state, Inr 2) \<and>
   uuid4_hex big_library 0 = uuid4_hex big_library 1 \<and>
   map fst (committed big_state) = [[''u-0'', ''u-1'']] \<and>
   distinct [''u-0'', ''u-1'']"
proof -
  from ingest_ids_distinct[OF big_run] obtain new where n:
    "committed big_state = committed empty_state @ new"
    "\<forall>(ids, texts, metas)\<in>set new. distinct ids \<and> length ids = length texts" by blast
  have c: "new = committed big_state" using n(1) by (simp add: empty_state_def)
  have "distinct [''u-0'', ''u-1'']" using n(2) unfolding c by (simp add: big_state_def)
  then show ?thesis using big_run by (simp add: big_state_def big_library_def)
qed

section \<open>The query orchestrator: claims\<close>














section \<open>The citation normalizer: claims\<close>

text \<open>
  Claim C7, as amended. For the identifier list \<open>["10.1000/xyz123"]\<close> and the style
  \<open>bibtex\<close>, against a resolver that returns the record of the example for that DOI,
  \<open>build_citations\<close> returns exactly one \<open>@article\<close> entry with the key
  \<open>Doe2021\<close> and the fields title, author, year and doi, each value between a brace
  and a space on either side. The entry is laid out on six lines: a line feed and two
  spaces stand before every field, and a line feed before the closing brace.
\<close>

theorem build_citations_doe_bibtex:
  "build_citations repr dumps doe_resolver [''10.1000/xyz123''] ''bibtex'' =
     Inr (''@article{Doe2021,'' @ [CHR 0x0A] @
          ''  title={ A Study },'' @ [CHR 0x0A] @
          ''  author={ Doe, Jane },'' @ [CHR 0x0A] @
          ''  year={ 2021 },'' @ [CHR 0x0A] @
          ''  doi={ 10.1000/xyz123 }'' @ [CHR 0x0A] @
          ''}'')"
  by code_simp

text \<open>
  The entry is not the one-line string of the specification, whose fields are
  separated by single spaces.
\<close>

theorem build_citations_doe_bibtex_counterexample:
  "build_citations (\<lambda>v. []) (\<lambda>ms. []) doe_resolver [''10.1000/xyz123''] ''bibtex'' \<noteq>
     Inr ''@article{Doe2021, title={ A Study }, author={ Doe, Jane }, year={ 2021 }, doi={ 10.1000/xyz123 }}''"
  by code_simp




end
